theory Spec2Isabelle
  imports Main "HOL-Library.Word"
begin

unbundle bit_operations_syntax

section \<open>The aggregate function groupArrayInsertAt (generic case)\<close>

text \<open>
  The development follows \<^verbatim>\<open>AggregateFunctionGroupArrayInsertAt.cpp\<close>. The state of one
  aggregation group is an \<^verbatim>\<open>Array\<close> of \<^verbatim>\<open>Field\<close>s; a \<^verbatim>\<open>Field\<close> is either Null or holds a
  value of the element type. Every method of the class becomes a function that takes the
  state and returns the new one; a \<^verbatim>\<open>throw\<close> becomes a result \<open>Inl (e, s)\<close>, where \<open>s\<close> is
  the state the exception leaves behind.
\<close>

subsection \<open>Fields, arrays, errors\<close>

type_synonym byte = "8 word"
type_synonym UInt64 = "64 word"

text \<open>\<open>None\<close> is the Null field, \<open>Some v\<close> a field holding \<open>v\<close>.\<close>

type_synonym 'v Field = "'v option"
type_synonym 'v Array = "'v Field list"

definition isNull :: "'v Field \<Rightarrow> bool" where
  "isNull f = (f = None)"

definition AGGREGATE_FUNCTION_GROUP_ARRAY_INSERT_AT_MAX_SIZE :: UInt64 where
  "AGGREGATE_FUNCTION_GROUP_ARRAY_INSERT_AT_MAX_SIZE = 0xFFFFFF"

text \<open>
  \<open>TOO_LARGE_ARRAY_SIZE\<close> is the only error the class itself throws outside its
  constructor. \<open>READ_FAILED\<close> stands for any exception thrown inside the readers the class
  calls (\<^verbatim>\<open>readVarUInt\<close>, \<^verbatim>\<open>readBinary\<close>, \<^verbatim>\<open>deserializeBinary\<close>), typically at the end of
  the buffer.
\<close>

datatype error = TOO_LARGE_ARRAY_SIZE | READ_FAILED

text \<open>\<^verbatim>\<open>std::vector::resize\<close>: cut, or pad with default-constructed (Null) fields.\<close>

definition resize :: "'v Array \<Rightarrow> nat \<Rightarrow> 'v Array" where
  "resize arr n = take n arr @ replicate (n - length arr) None"

subsection \<open>The state and the function object\<close>

record 'v AggregateFunctionGroupArrayInsertAtDataGeneric =
  value_arr :: "'v Array"

type_synonym 'v Data = "'v AggregateFunctionGroupArrayInsertAtDataGeneric"

text \<open>
  The serialization of the element type and the variable-length integer helpers are
  not part of the file; they are parameters. A reader returns \<open>None\<close> where it throws,
  and the rest of the buffer after what it consumed otherwise.
\<close>

record 'v Serialization =
  serializeBinary :: "'v Field \<Rightarrow> byte list"
  deserializeBinary :: "byte list \<Rightarrow> ('v Field \<times> byte list) option"

record VarUIntIO =
  writeVarUInt :: "UInt64 \<Rightarrow> byte list"
  readVarUInt :: "byte list \<Rightarrow> (UInt64 \<times> byte list) option"

record 'v AggregateFunctionGroupArrayInsertAtGeneric =
  serialization :: "'v Serialization"
  default_value :: "'v Field"
  length_to_resize :: UInt64

type_synonym 'v Func = "'v AggregateFunctionGroupArrayInsertAtGeneric"

text \<open>What a call that may throw returns: the error with the state left behind, or the result.\<close>

type_synonym ('s, 'a) outcome = "(error \<times> 's) + 'a"

definition state_after :: "('s, 's) outcome \<Rightarrow> 's" where
  "state_after r = (case r of Inl (e, s) \<Rightarrow> s | Inr s \<Rightarrow> s)"

definition slot_at :: "'v Array \<Rightarrow> nat \<Rightarrow> 'v Field" where
  "slot_at arr i = (if i < length arr then arr ! i else None)"

subsection \<open>add\<close>

definition add :: "'v Func \<Rightarrow> 'v Data \<Rightarrow> 'v Field \<Rightarrow> UInt64 \<Rightarrow> ('v Data, 'v Data) outcome" where
  "add this place v position =
    (if length_to_resize this \<noteq> 0 \<and> position \<ge> length_to_resize this then Inr place
     else if position \<ge> AGGREGATE_FUNCTION_GROUP_ARRAY_INSERT_AT_MAX_SIZE
       then Inl (TOO_LARGE_ARRAY_SIZE, place)
     else let arr = value_arr place in
       if length arr \<le> unat position
         then Inr (place\<lparr>value_arr := (resize arr (unat (position + 1)))[unat position := v]\<rparr>)
       else if \<not> isNull (arr ! unat position) then Inr place
       else Inr (place\<lparr>value_arr := arr[unat position := v]\<rparr>))"

text \<open>The two guards at the head of \<^verbatim>\<open>add\<close>, named: a position is dropped when a length
  is configured and the position is not below it; it is accepted when it is neither
  dropped nor at or above the limit.\<close>

definition add_dropped :: "'v Func \<Rightarrow> UInt64 \<Rightarrow> bool" where
  "add_dropped this position = (length_to_resize this \<noteq> 0 \<and> position \<ge> length_to_resize this)"

definition add_accepted :: "'v Func \<Rightarrow> UInt64 \<Rightarrow> bool" where
  "add_accepted this position =
    (\<not> add_dropped this position \<and> \<not> position \<ge> AGGREGATE_FUNCTION_GROUP_ARRAY_INSERT_AT_MAX_SIZE)"

subsection \<open>merge\<close>

function merge_loop :: "nat \<Rightarrow> nat \<Rightarrow> 'v Array \<Rightarrow> 'v Array \<Rightarrow> 'v Array" where
  "merge_loop i sz arr_lhs arr_rhs =
    (if i < sz
     then merge_loop (Suc i) sz
            (if isNull (arr_lhs ! i) \<and> \<not> isNull (arr_rhs ! i)
             then arr_lhs[i := arr_rhs ! i] else arr_lhs)
            arr_rhs
     else arr_lhs)"
  by pat_completeness auto
termination
  by (relation "measure (\<lambda>(i, sz, arr_lhs, arr_rhs). sz - i)") auto

declare merge_loop.simps [simp del]

definition merge :: "'v Data \<Rightarrow> 'v Data \<Rightarrow> 'v Data" where
  "merge place rhs =
    (let arr_lhs = value_arr place; arr_rhs = value_arr rhs;
         arr_lhs = (if length arr_lhs < length arr_rhs
                    then resize arr_lhs (length arr_rhs) else arr_lhs)
     in place\<lparr>value_arr := merge_loop 0 (length arr_rhs) arr_lhs arr_rhs\<rparr>)"

subsection \<open>serialize and deserialize\<close>

text \<open>The write buffer is the list of bytes written so far; each write appends.\<close>

primrec serialize_elems :: "'v Func \<Rightarrow> 'v Array \<Rightarrow> byte list \<Rightarrow> byte list" where
  "serialize_elems this [] buf = buf"
| "serialize_elems this (elem # rest) buf =
    serialize_elems this rest
      (if isNull elem then buf @ [1]
       else (buf @ [0]) @ serializeBinary (serialization this) elem)"

definition serialize :: "VarUIntIO \<Rightarrow> 'v Func \<Rightarrow> 'v Data \<Rightarrow> byte list \<Rightarrow> byte list" where
  "serialize io this place buf =
    (let arr = value_arr place; sz = (of_nat (length arr) :: UInt64)
     in serialize_elems this arr (buf @ writeVarUInt io sz))"

text \<open>The read buffer is the list of bytes not yet consumed.\<close>

function deserialize_loop ::
  "'v Func \<Rightarrow> nat \<Rightarrow> nat \<Rightarrow> 'v Array \<Rightarrow> byte list \<Rightarrow> ('v Array, 'v Array \<times> byte list) outcome" where
  "deserialize_loop this i sz arr buf =
    (if i < sz
     then (case buf of
             [] \<Rightarrow> Inl (READ_FAILED, arr)
           | is_null # buf1 \<Rightarrow>
               if is_null = 0
               then (case deserializeBinary (serialization this) buf1 of
                       None \<Rightarrow> Inl (READ_FAILED, arr)
                     | Some (f, buf2) \<Rightarrow> deserialize_loop this (Suc i) sz (arr[i := f]) buf2)
               else deserialize_loop this (Suc i) sz arr buf1)
     else Inr (arr, buf))"
  by pat_completeness auto
termination
  by (relation "measure (\<lambda>(this, i, sz, arr, buf). sz - i)") auto

declare deserialize_loop.simps [simp del]

definition deserialize ::
  "VarUIntIO \<Rightarrow> 'v Func \<Rightarrow> 'v Data \<Rightarrow> byte list \<Rightarrow> ('v Data, 'v Data \<times> byte list) outcome" where
  "deserialize io this place buf =
    (case readVarUInt io buf of
       None \<Rightarrow> Inl (READ_FAILED, place)
     | Some (sz, buf1) \<Rightarrow>
         if sz > AGGREGATE_FUNCTION_GROUP_ARRAY_INSERT_AT_MAX_SIZE
         then Inl (TOO_LARGE_ARRAY_SIZE, place)
         else (case deserialize_loop this 0 (unat sz) (resize (value_arr place) (unat sz)) buf1 of
                 Inl (e, arr) \<Rightarrow> Inl (e, place\<lparr>value_arr := arr\<rparr>)
               | Inr (arr, buf2) \<Rightarrow> Inr (place\<lparr>value_arr := arr\<rparr>, buf2)))"

definition deserialized :: "('v Data, 'v Data \<times> byte list) outcome \<Rightarrow> 'v Data" where
  "deserialized r = (case r of Inl (e, s) \<Rightarrow> s | Inr (s, buf) \<Rightarrow> s)"

subsection \<open>insertResultInto\<close>

text \<open>
  The result column is a \<^verbatim>\<open>ColumnArray\<close>: the elements of all rows one after the other,
  and for each row the offset where it ends. \<^verbatim>\<open>to_offsets.back()\<close> of a column without
  rows is 0 (the offsets are a padded array whose element before the first is zero).
\<close>

record 'v ColumnArray =
  getData :: "'v Array"
  getOffsets :: "UInt64 list"

definition back_offset :: "UInt64 list \<Rightarrow> UInt64" where
  "back_offset to_offsets = (if to_offsets = [] then 0 else last to_offsets)"

primrec insert_elems :: "'v Func \<Rightarrow> 'v Array \<Rightarrow> 'v Array \<Rightarrow> 'v Array" where
  "insert_elems this [] to_data = to_data"
| "insert_elems this (elem # rest) to_data =
    insert_elems this rest
      (if \<not> isNull elem then to_data @ [elem] else to_data @ [default_value this])"

function pad_loop :: "'v Func \<Rightarrow> nat \<Rightarrow> nat \<Rightarrow> 'v Array \<Rightarrow> 'v Array" where
  "pad_loop this i result_array_size to_data =
    (if i < result_array_size
     then pad_loop this (Suc i) result_array_size (to_data @ [default_value this])
     else to_data)"
  by pat_completeness auto
termination
  by (relation "measure (\<lambda>(this, i, n, to_data). n - i)") auto

declare pad_loop.simps [simp del]

definition insertResultInto :: "'v Func \<Rightarrow> 'v Data \<Rightarrow> 'v ColumnArray \<Rightarrow> 'v ColumnArray" where
  "insertResultInto this place to =
    (let arr = value_arr place;
         to_data = insert_elems this arr (getData to);
         result_array_size = (if length_to_resize this \<noteq> 0
                              then unat (length_to_resize this) else length arr);
         to_data = pad_loop this (length arr) result_array_size to_data
     in to\<lparr>getData := to_data,
           getOffsets := getOffsets to @ [back_offset (getOffsets to) + of_nat result_array_size]\<rparr>)"


text \<open>The value \<^verbatim>\<open>insertResultInto\<close> gives its local \<^verbatim>\<open>result_array_size\<close>.\<close>

definition result_array_size_of :: "'v Func \<Rightarrow> 'v Data \<Rightarrow> nat" where
  "result_array_size_of this place =
    (if length_to_resize this \<noteq> 0 then unat (length_to_resize this) else length (value_arr place))"

subsection \<open>Written positions and reachable states\<close>

text \<open>The positions at which a state holds a non-null value.\<close>

definition written_positions :: "'v Data \<Rightarrow> nat set" where
  "written_positions s = {i \<in> set [0..<length (value_arr s)]. \<not> isNull (value_arr s ! i)}"

text \<open>
  The states one function object can hold: a state is created empty and changed only by
  \<open>add\<close>, \<open>merge\<close> and \<open>deserialize\<close>; a call that throws leaves the state it had reached.
\<close>

inductive reachable :: "VarUIntIO \<Rightarrow> 'v Func \<Rightarrow> 'v Data \<Rightarrow> bool" for io this where
  reachable_create: "reachable io this \<lparr>value_arr = []\<rparr>"
| reachable_add: "reachable io this s \<Longrightarrow> reachable io this (state_after (add this s v position))"
| reachable_merge: "reachable io this a \<Longrightarrow> reachable io this b \<Longrightarrow> reachable io this (merge a b)"
| reachable_deserialize:
    "reachable io this s \<Longrightarrow> reachable io this (deserialized (deserialize io this s buf))"

subsection \<open>Later operations on a state\<close>

text \<open>
  What can happen to a state after a call of \<open>add\<close>: further calls of \<open>add\<close>, with any value
  at any position, and calls of \<open>merge\<close> with any other state on the right. A call of \<open>add\<close>
  that throws leaves the state it had reached and the operations go on from there.
\<close>

datatype 'v operation = Add "'v Field" UInt64 | Merge "'v Data"

fun apply_operation :: "'v Func \<Rightarrow> 'v Data \<Rightarrow> 'v operation \<Rightarrow> 'v Data" where
  "apply_operation this s (Add v position) = state_after (add this s v position)"
| "apply_operation this s (Merge rhs) = merge s rhs"

primrec apply_operations :: "'v Func \<Rightarrow> 'v Data \<Rightarrow> 'v operation list \<Rightarrow> 'v Data" where
  "apply_operations this s [] = s"
| "apply_operations this s (op # ops) = apply_operations this (apply_operation this s op) ops"

text \<open>
  An operation brings a non-null value to position \<open>p\<close> when it is an \<open>add\<close> of a non-null
  value at \<open>p\<close>, or a \<open>merge\<close> with a state that holds a non-null value at \<open>p\<close>.
\<close>

fun writes_nonnull_at :: "nat \<Rightarrow> 'v operation \<Rightarrow> bool" where
  "writes_nonnull_at p (Add v position) = (unat position = p \<and> \<not> isNull v)"
| "writes_nonnull_at p (Merge rhs) = (\<not> isNull (slot_at (value_arr rhs) p))"

subsection \<open>A sample instance\<close>

text \<open>
  To run the functions on concrete inputs the parameters need values. The sample takes
  the base-128 encoding of unsigned integers (seven bits per byte, lowest first, the top
  bit set on every byte but the last; the reader stops after ten bytes) and an element
  type of single bytes, and is used only to instantiate the theorems below.
\<close>

function sample_writeVarUInt :: "UInt64 \<Rightarrow> byte list" where
  "sample_writeVarUInt x =
    (if x > 0x7F then (0x80 OR ucast (x AND 0x7F)) # sample_writeVarUInt (drop_bit 7 x)
     else [ucast x])"
  by pat_completeness auto
termination
proof (relation "measure unat")
  show "wf (measure unat)" by simp
next
  fix x :: UInt64
  assume "0x7F < x"
  then have "127 < unat x" by (simp add: word_less_nat_alt)
  then have "unat x div 128 < unat x" by simp
  then show "(drop_bit 7 x, x) \<in> measure unat"
    by (simp add: drop_bit_eq_div unat_div)
qed

function sample_readVarUInt_loop :: "nat \<Rightarrow> UInt64 \<Rightarrow> byte list \<Rightarrow> (UInt64 \<times> byte list) option" where
  "sample_readVarUInt_loop i x buf =
    (if i < 10
     then (case buf of
             [] \<Rightarrow> None
           | b # rest \<Rightarrow>
               let x = x OR push_bit (7 * i) (ucast (b AND 0x7F))
               in if b AND 0x80 = 0 then Some (x, rest)
                  else sample_readVarUInt_loop (Suc i) x rest)
     else Some (x, buf))"
  by pat_completeness auto
termination
  by (relation "measure (\<lambda>(i, x, buf). 10 - i)") auto

declare sample_writeVarUInt.simps [simp del]
declare sample_readVarUInt_loop.simps [simp del]

definition sample_io :: VarUIntIO where
  "sample_io = \<lparr>writeVarUInt = sample_writeVarUInt, readVarUInt = sample_readVarUInt_loop 0 0\<rparr>"

definition UInt8_serialization :: "byte Serialization" where
  "UInt8_serialization =
    \<lparr>serializeBinary = (\<lambda>f. case f of None \<Rightarrow> [] | Some b \<Rightarrow> [b]),
     deserializeBinary = (\<lambda>buf. case buf of [] \<Rightarrow> None | b # rest \<Rightarrow> Some (Some b, rest))\<rparr>"

definition sample_func :: "UInt64 \<Rightarrow> byte Func" where
  "sample_func len = \<lparr>serialization = UInt8_serialization, default_value = Some 0, length_to_resize = len\<rparr>"

section \<open>Properties\<close>

subsection \<open>Resizing and the merge loop\<close>

lemma length_resize: "length (resize arr n) = n"
  by (simp add: resize_def)

lemma slot_at_resize: "slot_at (resize arr n) i = (if i < n then slot_at arr i else None)"
  by (auto simp: resize_def slot_at_def nth_append)

lemma slot_at_Nil: "slot_at [] i = None"
  by (simp add: slot_at_def)

lemma resize_same: "resize arr (length arr) = arr"
  by (simp add: resize_def)

lemma length_merge_loop: "length (merge_loop i sz l r) = length l"
proof (induction i sz l r rule: merge_loop.induct)
  case (1 i sz l r)
  show ?case
  proof (cases "i < sz")
    case True
    with "1.IH" show ?thesis by (subst merge_loop.simps) simp
  next
    case False
    then show ?thesis by (subst merge_loop.simps) simp
  qed
qed

lemma nth_merge_loop:
  "j < length l \<Longrightarrow>
   merge_loop i sz l r ! j =
     (if i \<le> j \<and> j < sz \<and> isNull (l ! j) \<and> \<not> isNull (r ! j) then r ! j else l ! j)"
proof (induction i sz l r rule: merge_loop.induct)
  case (1 i sz l r)
  show ?case
  proof (cases "i < sz")
    case False
    then show ?thesis by (subst merge_loop.simps) auto
  next
    case True
    show ?thesis
    proof (cases "isNull (l ! i) \<and> \<not> isNull (r ! i)")
      case copy: True
      have step: "merge_loop i sz l r = merge_loop (Suc i) sz (l[i := r ! i]) r"
        using True copy by (subst merge_loop.simps) simp
      have len: "j < length (l[i := r ! i])" using "1.prems" by simp
      have eq: "(if isNull (l ! i) \<and> \<not> isNull (r ! i) then l[i := r ! i] else l) = l[i := r ! i]"
        using copy by simp
      note ih = "1.IH"[OF True, unfolded eq, OF len]
      show ?thesis
      proof (cases "j = i")
        case True
        show ?thesis unfolding step ih using True \<open>i < sz\<close> copy "1.prems" by simp
      next
        case False
        show ?thesis unfolding step ih using False by simp
      qed
    next
      case keep: False
      have step: "merge_loop i sz l r = merge_loop (Suc i) sz l r"
        using True keep by (subst merge_loop.simps) auto
      have eq: "(if isNull (l ! i) \<and> \<not> isNull (r ! i) then l[i := r ! i] else l) = l"
        using keep by auto
      note ih = "1.IH"[OF True, unfolded eq, OF "1.prems"]
      show ?thesis
      proof (cases "j = i")
        case True
        show ?thesis unfolding step ih using True keep by auto
      next
        case False
        show ?thesis unfolding step ih using False by simp
      qed
    qed
  qed
qed

lemma length_merge: "length (value_arr (merge a b)) = max (length (value_arr a)) (length (value_arr b))"
  by (simp add: merge_def Let_def length_merge_loop length_resize)

lemma slot_at_merge:
  "slot_at (value_arr (merge a b)) j =
    (if \<not> isNull (slot_at (value_arr a) j) then slot_at (value_arr a) j else slot_at (value_arr b) j)"
proof (cases "j < max (length (value_arr a)) (length (value_arr b))")
  case False
  then show ?thesis by (auto simp: slot_at_def length_merge isNull_def)
next
  case True
  let ?l = "if length (value_arr a) < length (value_arr b)
            then resize (value_arr a) (length (value_arr b)) else value_arr a"
  have len: "length ?l = max (length (value_arr a)) (length (value_arr b))"
    by (simp add: length_resize)
  have l: "?l ! j = slot_at (value_arr a) j"
    using True slot_at_resize[of "value_arr a" "length (value_arr b)" j]
    by (auto simp: slot_at_def length_resize split: if_splits)
  have m: "value_arr (merge a b) = merge_loop 0 (length (value_arr b)) ?l (value_arr b)"
    by (simp add: merge_def Let_def)
  have "slot_at (value_arr (merge a b)) j = value_arr (merge a b) ! j"
    using True by (simp add: slot_at_def length_merge)
  also have "\<dots> = merge_loop 0 (length (value_arr b)) ?l (value_arr b) ! j"
    by (simp only: m)
  also have "\<dots> = (if j < length (value_arr b) \<and> isNull (?l ! j) \<and> \<not> isNull (value_arr b ! j)
                     then value_arr b ! j else ?l ! j)"
    using True len by (subst nth_merge_loop) auto
  finally show ?thesis unfolding l
    by (auto simp: slot_at_def isNull_def)
qed


lemma Array_eqI:
  assumes "length a = length b" and "\<And>j. slot_at a j = slot_at b j"
  shows "a = b"
proof (rule nth_equalityI)
  show "length a = length b" by fact
next
  fix i assume "i < length a"
  with assms(1) assms(2)[of i] show "a ! i = b ! i" by (simp add: slot_at_def)
qed

lemma Data_eqI:
  fixes a b :: "'v Data"
  assumes "length (value_arr a) = length (value_arr b)"
    and "\<And>j. slot_at (value_arr a) j = slot_at (value_arr b) j"
  shows "a = b"
proof -
  have "value_arr a = value_arr b" using assms by (rule Array_eqI)
  then show ?thesis by simp
qed

subsection \<open>merge\<close>

text \<open>
  C4. After \<open>merge dst src\<close> the array is as long as the longer of the two; every position
  keeps the value of \<open>dst\<close> where \<open>dst\<close> had one and takes the slot of \<open>src\<close> otherwise
  (a position beyond the end of an array counts as empty). Merging with the empty state,
  on either side, changes nothing.
\<close>

theorem merge_takes_first_nonnull:
  fixes dst src s :: "'v Data"
  shows "length (value_arr (merge dst src)) = max (length (value_arr dst)) (length (value_arr src))
    \<and> (\<forall>i. slot_at (value_arr (merge dst src)) i =
          (if \<not> isNull (slot_at (value_arr dst) i) then slot_at (value_arr dst) i
           else slot_at (value_arr src) i))
    \<and> merge s \<lparr>value_arr = []\<rparr> = s
    \<and> merge \<lparr>value_arr = []\<rparr> s = s"
proof -
  have "merge s \<lparr>value_arr = []\<rparr> = s"
    by (rule Data_eqI) (simp_all add: length_merge slot_at_merge slot_at_Nil isNull_def)
  moreover have "merge \<lparr>value_arr = []\<rparr> s = s"
    by (rule Data_eqI) (simp_all add: length_merge slot_at_merge slot_at_Nil isNull_def)
  ultimately show ?thesis
    using length_merge[of dst src] slot_at_merge[of dst src] by simp
qed

subsection \<open>add\<close>

lemma unat_MAX_SIZE: "unat AGGREGATE_FUNCTION_GROUP_ARRAY_INSERT_AT_MAX_SIZE = 16777215"
  by (simp add: AGGREGATE_FUNCTION_GROUP_ARRAY_INSERT_AT_MAX_SIZE_def)

lemma below_MAX_SIZE:
  "\<not> position \<ge> AGGREGATE_FUNCTION_GROUP_ARRAY_INSERT_AT_MAX_SIZE \<Longrightarrow> unat position < 16777215"
  using unat_MAX_SIZE by (simp add: word_le_nat_alt)

lemma unat_position_succ:
  assumes "\<not> position \<ge> AGGREGATE_FUNCTION_GROUP_ARRAY_INSERT_AT_MAX_SIZE"
  shows "unat (position + 1) = Suc (unat position)"
proof -
  have "unat position + unat (1 :: UInt64) < 2 ^ LENGTH(64)"
    using below_MAX_SIZE[OF assms] by simp
  then have "unat (position + 1) = unat position + unat (1 :: UInt64)"
    by (simp only: unat_add_lem)
  then show ?thesis by simp
qed

lemma add_rejected_state: "\<not> add_accepted this position \<Longrightarrow> state_after (add this s v position) = s"
  by (auto simp: add_accepted_def add_dropped_def add_def state_after_def)

lemma add_accepted_Inr:
  "add_accepted this position \<Longrightarrow> add this s v position = Inr (state_after (add this s v position))"
  by (auto simp: add_accepted_def add_dropped_def add_def state_after_def Let_def)

lemma length_add:
  assumes "add_accepted this position"
  shows "length (value_arr (state_after (add this s v position)))
         = max (length (value_arr s)) (Suc (unat position))"
  using assms unat_position_succ[of position]
  by (auto simp: add_accepted_def add_dropped_def add_def state_after_def Let_def length_resize)

lemma slot_at_add:
  assumes "add_accepted this position"
  shows "slot_at (value_arr (state_after (add this s v position))) j
         = (if j = unat position \<and> isNull (slot_at (value_arr s) j) then v
            else slot_at (value_arr s) j)"
proof -
  have succ: "unat (position + 1) = Suc (unat position)"
    using assms unat_position_succ[of position] by (simp add: add_accepted_def)
  show ?thesis
  proof (cases "length (value_arr s) \<le> unat position")
    case True
    with assms have "value_arr (state_after (add this s v position))
        = (resize (value_arr s) (Suc (unat position)))[unat position := v]"
      by (auto simp add: add_accepted_def add_dropped_def add_def state_after_def Let_def succ)
    then show ?thesis using True
      by (auto simp: slot_at_def length_resize nth_list_update resize_def nth_append isNull_def)
  next
    case False
    show ?thesis
    proof (cases "isNull (value_arr s ! unat position)")
      case True
      with False assms have "value_arr (state_after (add this s v position))
          = (value_arr s)[unat position := v]"
        by (auto simp add: add_accepted_def add_dropped_def add_def state_after_def Let_def)
      then show ?thesis using False True
        by (auto simp: slot_at_def nth_list_update isNull_def)
    next
      case nonnull: False
      with False assms have "state_after (add this s v position) = s"
        by (auto simp add: add_accepted_def add_dropped_def add_def state_after_def Let_def)
      then show ?thesis using False nonnull
        by (auto simp: slot_at_def)
    qed
  qed
qed

subsection \<open>The deserialization loop\<close>

lemma deserialize_loop_error:
  "deserialize_loop this i sz arr buf = Inl (e, arr') \<Longrightarrow> e = READ_FAILED"
proof (induction this i sz arr buf rule: deserialize_loop.induct)
  case (1 this i sz arr buf)
  from "1.prems" show ?case
    by (subst (asm) deserialize_loop.simps)
       (auto split: if_splits list.splits option.splits dest: "1.IH")
qed

lemma deserialize_loop_length_Inl:
  "deserialize_loop this i sz arr buf = Inl (e, arr') \<Longrightarrow> length arr' = length arr"
proof (induction this i sz arr buf rule: deserialize_loop.induct)
  case (1 this i sz arr buf)
  from "1.prems" show ?case
    by (subst (asm) deserialize_loop.simps)
       (auto split: if_splits list.splits option.splits dest: "1.IH")
qed

lemma deserialize_loop_length_Inr:
  "deserialize_loop this i sz arr buf = Inr (arr', buf') \<Longrightarrow> length arr' = length arr"
proof (induction this i sz arr buf rule: deserialize_loop.induct)
  case (1 this i sz arr buf)
  from "1.prems" show ?case
    by (subst (asm) deserialize_loop.simps)
       (auto split: if_splits list.splits option.splits dest: "1.IH")
qed

subsection \<open>Guards of add\<close>

text \<open>
  C8. When a length is configured (non-zero) and the position is not below it, \<open>add\<close>
  returns normally and leaves the state as it was; so the bytes \<open>serialize\<close> writes and the
  column \<open>insertResultInto\<close> produces are those of the state before the call.
\<close>

theorem add_beyond_length_is_noop:
  assumes "length_to_resize this \<noteq> 0" and "position \<ge> length_to_resize this"
  shows "add this s v position = Inr s
       \<and> serialize io this (state_after (add this s v position)) buf = serialize io this s buf
       \<and> insertResultInto this (state_after (add this s v position)) to = insertResultInto this s to"
proof -
  have "add this s v position = Inr s" using assms by (simp add: add_def)
  then show ?thesis by (simp add: state_after_def)
qed

text \<open>The theorem at length 3 and position 5.\<close>

theorem add_beyond_length_is_noop_witness:
  "length_to_resize (sample_func 3) \<noteq> 0 \<and> 5 \<ge> length_to_resize (sample_func 3)
   \<and> add (sample_func 3) \<lparr>value_arr = [Some 1]\<rparr> (Some 9) 5 = Inr \<lparr>value_arr = [Some 1]\<rparr>
   \<and> serialize sample_io (sample_func 3) (state_after (add (sample_func 3) \<lparr>value_arr = [Some 1]\<rparr> (Some 9) 5)) []
       = serialize sample_io (sample_func 3) \<lparr>value_arr = [Some 1]\<rparr> []
   \<and> insertResultInto (sample_func 3) (state_after (add (sample_func 3) \<lparr>value_arr = [Some 1]\<rparr> (Some 9) 5))
         \<lparr>getData = [], getOffsets = []\<rparr>
       = insertResultInto (sample_func 3) \<lparr>value_arr = [Some 1]\<rparr> \<lparr>getData = [], getOffsets = []\<rparr>"
proof -
  have h1: "length_to_resize (sample_func 3) \<noteq> 0" by (simp add: sample_func_def)
  have h2: "5 \<ge> length_to_resize (sample_func 3)" by (simp add: sample_func_def)
  show ?thesis
    using h1 h2 add_beyond_length_is_noop[OF h1 h2, of "\<lparr>value_arr = [Some 1]\<rparr>" "Some 9" sample_io "[]"
        "\<lparr>getData = [], getOffsets = []\<rparr>"]
    by blast
qed

text \<open>
  C9. When the position is not dropped by the configured length, \<open>add\<close> at a position at or
  above the limit (the limit itself included) throws \<open>TOO_LARGE_ARRAY_SIZE\<close> and leaves the
  state unchanged. \<open>deserialize\<close> throws \<open>TOO_LARGE_ARRAY_SIZE\<close> exactly when the size it read
  from the buffer is above the limit, and then the state is unchanged too.
\<close>

theorem too_large_raises:
  "(\<not> add_dropped this position \<and> position \<ge> AGGREGATE_FUNCTION_GROUP_ARRAY_INSERT_AT_MAX_SIZE
      \<longrightarrow> add this s v position = Inl (TOO_LARGE_ARRAY_SIZE, s))
   \<and> (deserialize io this s buf = Inl (TOO_LARGE_ARRAY_SIZE, s')
        \<longleftrightarrow> s' = s \<and> (\<exists>sz buf1. readVarUInt io buf = Some (sz, buf1)
                         \<and> sz > AGGREGATE_FUNCTION_GROUP_ARRAY_INSERT_AT_MAX_SIZE))"
proof -
  have a: "\<not> add_dropped this position \<and> position \<ge> AGGREGATE_FUNCTION_GROUP_ARRAY_INSERT_AT_MAX_SIZE
      \<longrightarrow> add this s v position = Inl (TOO_LARGE_ARRAY_SIZE, s)"
    by (auto simp: add_def add_dropped_def)
  have b: "deserialize io this s buf = Inl (TOO_LARGE_ARRAY_SIZE, s')
        \<longleftrightarrow> s' = s \<and> (\<exists>sz buf1. readVarUInt io buf = Some (sz, buf1)
                         \<and> sz > AGGREGATE_FUNCTION_GROUP_ARRAY_INSERT_AT_MAX_SIZE)"
    by (auto simp: deserialize_def split: option.splits sum.splits dest: deserialize_loop_error)
  from a b show ?thesis by simp
qed

text \<open>The theorem at position \<open>0xFFFFFF\<close> and at a buffer that declares \<open>0x1000000\<close> elements.\<close>

theorem too_large_raises_witness:
  "\<not> add_dropped (sample_func 0) 0xFFFFFF \<and> 0xFFFFFF \<ge> AGGREGATE_FUNCTION_GROUP_ARRAY_INSERT_AT_MAX_SIZE
   \<and> add (sample_func 0) \<lparr>value_arr = [Some 1]\<rparr> (Some 9) 0xFFFFFF
       = Inl (TOO_LARGE_ARRAY_SIZE, \<lparr>value_arr = [Some 1]\<rparr>)
   \<and> readVarUInt sample_io [0x80, 0x80, 0x80, 0x08, 1] = Some (0x1000000, [1])
   \<and> deserialize sample_io (sample_func 0) \<lparr>value_arr = [Some 1]\<rparr> [0x80, 0x80, 0x80, 0x08, 1]
       = Inl (TOO_LARGE_ARRAY_SIZE, \<lparr>value_arr = [Some 1]\<rparr>)"
proof -
  have h1: "\<not> add_dropped (sample_func 0) 0xFFFFFF"
    by (simp add: add_dropped_def sample_func_def)
  have h2: "0xFFFFFF \<ge> AGGREGATE_FUNCTION_GROUP_ARRAY_INSERT_AT_MAX_SIZE"
    by (simp add: AGGREGATE_FUNCTION_GROUP_ARRAY_INSERT_AT_MAX_SIZE_def)
  have h3: "readVarUInt sample_io [0x80, 0x80, 0x80, 0x08, 1] = Some (0x1000000, [1])"
    by (simp add: sample_io_def sample_readVarUInt_loop.simps)
  have h4: "(0x1000000 :: UInt64) > AGGREGATE_FUNCTION_GROUP_ARRAY_INSERT_AT_MAX_SIZE"
    by (simp add: AGGREGATE_FUNCTION_GROUP_ARRAY_INSERT_AT_MAX_SIZE_def)
  show ?thesis
    using h1 h2 h3 h4 too_large_raises
      [of "sample_func 0" "0xFFFFFF" "\<lparr>value_arr = [Some 1]\<rparr>" "Some 9" sample_io
          "[0x80, 0x80, 0x80, 0x08, 1]" "\<lparr>value_arr = [Some 1]\<rparr>"]
    by blast
qed

subsection \<open>First write wins\<close>

text \<open>
  C7. A slot that holds a non-null value keeps it: after \<open>add\<close> at any position (that of the
  slot included), whether the call returns or throws, and after \<open>merge\<close> with any other
  state on the right.
\<close>

theorem nonnull_slot_never_overwritten:
  assumes "\<not> isNull (slot_at (value_arr s) i)"
  shows "slot_at (value_arr (state_after (add this s v position))) i = slot_at (value_arr s) i
       \<and> slot_at (value_arr (merge s src)) i = slot_at (value_arr s) i"
proof (cases "add_accepted this position")
  case True
  then show ?thesis using assms by (simp add: slot_at_add slot_at_merge)
next
  case False
  then show ?thesis using assms by (simp add: add_rejected_state slot_at_merge)
qed

text \<open>The theorem at a state holding 1 at position 0.\<close>

theorem nonnull_slot_never_overwritten_witness:
  "\<not> isNull (slot_at (value_arr \<lparr>value_arr = [Some (1::byte)]\<rparr>) 0)
   \<and> slot_at (value_arr (state_after (add (sample_func 0) \<lparr>value_arr = [Some 1]\<rparr> (Some 9) 0))) 0
       = slot_at (value_arr \<lparr>value_arr = [Some (1::byte)]\<rparr>) 0
   \<and> slot_at (value_arr (merge \<lparr>value_arr = [Some (1::byte)]\<rparr> \<lparr>value_arr = [Some 7]\<rparr>)) 0
       = slot_at (value_arr \<lparr>value_arr = [Some (1::byte)]\<rparr>) 0"
proof -
  have h: "\<not> isNull (slot_at (value_arr \<lparr>value_arr = [Some (1::byte)]\<rparr>) 0)"
    by (simp add: isNull_def slot_at_def)
  show ?thesis
    using h nonnull_slot_never_overwritten[OF h, of "sample_func 0" "Some 9" 0 "\<lparr>value_arr = [Some 7]\<rparr>"]
    by blast
qed

subsection \<open>Commutativity and associativity of merge\<close>

lemma written_positions_iff:
  "i \<in> written_positions s \<longleftrightarrow> \<not> isNull (slot_at (value_arr s) i)"
  by (auto simp: written_positions_def slot_at_def isNull_def)

lemma disjoint_written:
  assumes "written_positions a \<inter> written_positions b = {}"
    and "\<not> isNull (slot_at (value_arr a) j)"
  shows "isNull (slot_at (value_arr b) j)"
  using assms written_positions_iff[of j a] written_positions_iff[of j b] by blast

lemma merge_commute:
  assumes "written_positions a \<inter> written_positions b = {}"
  shows "merge a b = merge b a"
proof (rule Data_eqI)
  show "length (value_arr (merge a b)) = length (value_arr (merge b a))"
    by (simp add: length_merge max.commute)
next
  fix j
  have ab: "\<not> isNull (slot_at (value_arr a) j) \<Longrightarrow> isNull (slot_at (value_arr b) j)"
    using assms by (rule disjoint_written)
  show "slot_at (value_arr (merge a b)) j = slot_at (value_arr (merge b a)) j"
    using ab by (auto simp: slot_at_merge isNull_def)
qed

lemma merge_assoc: "merge (merge a b) c = merge a (merge b c)"
proof (rule Data_eqI)
  show "length (value_arr (merge (merge a b) c)) = length (value_arr (merge a (merge b c)))"
    by (simp add: length_merge max.assoc)
next
  fix j
  show "slot_at (value_arr (merge (merge a b) c)) j = slot_at (value_arr (merge a (merge b c))) j"
    by (simp add: slot_at_merge)
qed

text \<open>
  C5. When no position holds a non-null value in more than one of the states \<open>a\<close>, \<open>b\<close>, \<open>c\<close>,
  merging is commutative and associative: \<open>merge a b = merge b a\<close> and
  \<open>merge (merge a b) c = merge a (merge b c)\<close>, as states (length and every slot).
\<close>

theorem merge_commutative_associative_when_disjoint:
  assumes "written_positions a \<inter> written_positions b = {}"
    and "written_positions a \<inter> written_positions c = {}"
    and "written_positions b \<inter> written_positions c = {}"
  shows "merge a b = merge b a \<and> merge (merge a b) c = merge a (merge b c)"
  using merge_commute[OF assms(1)] merge_assoc[of a b c] by simp

text \<open>The theorem at three states written at positions 0, 1 and 3.\<close>

theorem merge_commutative_associative_when_disjoint_witness:
  "written_positions \<lparr>value_arr = [Some (1::byte), None, None]\<rparr>
     \<inter> written_positions \<lparr>value_arr = [None, Some (2::byte)]\<rparr> = {}
   \<and> written_positions \<lparr>value_arr = [Some (1::byte), None, None]\<rparr>
     \<inter> written_positions \<lparr>value_arr = [None, None, None, Some (4::byte)]\<rparr> = {}
   \<and> written_positions \<lparr>value_arr = [None, Some (2::byte)]\<rparr>
     \<inter> written_positions \<lparr>value_arr = [None, None, None, Some (4::byte)]\<rparr> = {}
   \<and> merge \<lparr>value_arr = [Some (1::byte), None, None]\<rparr> \<lparr>value_arr = [None, Some 2]\<rparr>
       = merge \<lparr>value_arr = [None, Some 2]\<rparr> \<lparr>value_arr = [Some 1, None, None]\<rparr>
   \<and> merge (merge \<lparr>value_arr = [Some (1::byte), None, None]\<rparr> \<lparr>value_arr = [None, Some 2]\<rparr>)
         \<lparr>value_arr = [None, None, None, Some 4]\<rparr>
       = merge \<lparr>value_arr = [Some 1, None, None]\<rparr>
           (merge \<lparr>value_arr = [None, Some 2]\<rparr> \<lparr>value_arr = [None, None, None, Some 4]\<rparr>)"
proof -
  have h1: "written_positions \<lparr>value_arr = [Some (1::byte), None, None]\<rparr>
     \<inter> written_positions \<lparr>value_arr = [None, Some (2::byte)]\<rparr> = {}"
    by code_simp
  have h2: "written_positions \<lparr>value_arr = [Some (1::byte), None, None]\<rparr>
     \<inter> written_positions \<lparr>value_arr = [None, None, None, Some (4::byte)]\<rparr> = {}"
    by code_simp
  have h3: "written_positions \<lparr>value_arr = [None, Some (2::byte)]\<rparr>
     \<inter> written_positions \<lparr>value_arr = [None, None, None, Some (4::byte)]\<rparr> = {}"
    by code_simp
  show ?thesis
    using h1 h2 h3 merge_commutative_associative_when_disjoint[OF h1 h2 h3] by blast
qed

subsection \<open>The bound on the length\<close>

lemma length_add_bound:
  assumes "length (value_arr s) \<le> unat AGGREGATE_FUNCTION_GROUP_ARRAY_INSERT_AT_MAX_SIZE"
  shows "length (value_arr (state_after (add this s v position)))
           \<le> unat AGGREGATE_FUNCTION_GROUP_ARRAY_INSERT_AT_MAX_SIZE"
proof (cases "add_accepted this position")
  case True
  then have "unat position < 16777215" by (simp add: add_accepted_def below_MAX_SIZE)
  with assms True show ?thesis by (simp add: length_add unat_MAX_SIZE)
next
  case False
  with assms show ?thesis by (simp add: add_rejected_state)
qed

lemma length_merge_bound:
  assumes "length (value_arr a) \<le> n" and "length (value_arr b) \<le> n"
  shows "length (value_arr (merge a b)) \<le> n"
  using assms by (simp add: length_merge)

lemma length_deserialize_bound:
  assumes "length (value_arr s) \<le> unat AGGREGATE_FUNCTION_GROUP_ARRAY_INSERT_AT_MAX_SIZE"
  shows "length (value_arr (deserialized (deserialize io this s buf)))
           \<le> unat AGGREGATE_FUNCTION_GROUP_ARRAY_INSERT_AT_MAX_SIZE"
proof (cases "readVarUInt io buf")
  case None
  with assms show ?thesis by (simp add: deserialize_def deserialized_def)
next
  case (Some r)
  obtain sz buf1 where r: "r = (sz, buf1)" by (cases r)
  show ?thesis
  proof (cases "sz > AGGREGATE_FUNCTION_GROUP_ARRAY_INSERT_AT_MAX_SIZE")
    case True
    with assms Some r show ?thesis by (simp add: deserialize_def deserialized_def)
  next
    case False
    then have le: "unat sz \<le> unat AGGREGATE_FUNCTION_GROUP_ARRAY_INSERT_AT_MAX_SIZE"
      by (simp add: word_less_nat_alt)
    show ?thesis
    proof (cases "deserialize_loop this 0 (unat sz) (resize (value_arr s) (unat sz)) buf1")
      case (Inl x)
      obtain e arr where x: "x = (e, arr)" by (cases x)
      have "length arr = unat sz"
        using deserialize_loop_length_Inl[OF Inl[unfolded x]] by (simp add: length_resize)
      with Some r False Inl x le show ?thesis by (simp add: deserialize_def deserialized_def)
    next
      case (Inr y)
      obtain arr buf2 where y: "y = (arr, buf2)" by (cases y)
      have "length arr = unat sz"
        using deserialize_loop_length_Inr[OF Inr[unfolded y]] by (simp add: length_resize)
      with Some r False Inr y le show ?thesis by (simp add: deserialize_def deserialized_def)
    qed
  qed
qed

text \<open>
  C6. The array never grows beyond the limit of 16,777,215 slots. \<open>add\<close> and \<open>deserialize\<close>
  keep the bound on a state that satisfies it, whether they return or throw; \<open>merge\<close> of two
  states within the bound is within the bound; hence every state reachable from the empty
  one by \<open>add\<close>, \<open>merge\<close> and \<open>deserialize\<close> is within the bound.
\<close>

theorem length_bound_invariant:
  "(length (value_arr s) \<le> unat AGGREGATE_FUNCTION_GROUP_ARRAY_INSERT_AT_MAX_SIZE \<longrightarrow>
      length (value_arr (state_after (add this s v position)))
        \<le> unat AGGREGATE_FUNCTION_GROUP_ARRAY_INSERT_AT_MAX_SIZE
      \<and> length (value_arr (deserialized (deserialize io this s buf)))
        \<le> unat AGGREGATE_FUNCTION_GROUP_ARRAY_INSERT_AT_MAX_SIZE)
   \<and> (length (value_arr a) \<le> unat AGGREGATE_FUNCTION_GROUP_ARRAY_INSERT_AT_MAX_SIZE
        \<and> length (value_arr b) \<le> unat AGGREGATE_FUNCTION_GROUP_ARRAY_INSERT_AT_MAX_SIZE \<longrightarrow>
      length (value_arr (merge a b)) \<le> unat AGGREGATE_FUNCTION_GROUP_ARRAY_INSERT_AT_MAX_SIZE)
   \<and> (reachable io this r \<longrightarrow>
        length (value_arr r) \<le> unat AGGREGATE_FUNCTION_GROUP_ARRAY_INSERT_AT_MAX_SIZE)
   \<and> unat AGGREGATE_FUNCTION_GROUP_ARRAY_INSERT_AT_MAX_SIZE = 16777215"
proof -
  have inv: "reachable io this r \<Longrightarrow>
        length (value_arr r) \<le> unat AGGREGATE_FUNCTION_GROUP_ARRAY_INSERT_AT_MAX_SIZE"
  proof (induction rule: reachable.induct)
    case reachable_create
    show ?case by simp
  next
    case (reachable_add s v position)
    then show ?case by (simp add: length_add_bound)
  next
    case (reachable_merge a b)
    then show ?case by (simp add: length_merge_bound)
  next
    case (reachable_deserialize s buf)
    then show ?case by (simp add: length_deserialize_bound)
  qed
  show ?thesis
    using inv length_add_bound[of s this v position] length_deserialize_bound[of s io this buf]
      length_merge_bound[of a "unat AGGREGATE_FUNCTION_GROUP_ARRAY_INSERT_AT_MAX_SIZE" b]
      unat_MAX_SIZE
    by blast
qed

text \<open>The theorem at small states, and at the state reached by one \<open>add\<close> at position 2.\<close>

theorem length_bound_invariant_witness:
  "length (value_arr \<lparr>value_arr = [Some (1::byte)]\<rparr>) \<le> unat AGGREGATE_FUNCTION_GROUP_ARRAY_INSERT_AT_MAX_SIZE
   \<and> length (value_arr (state_after (add (sample_func 0) \<lparr>value_arr = [Some 1]\<rparr> (Some 9) 3)))
        \<le> unat AGGREGATE_FUNCTION_GROUP_ARRAY_INSERT_AT_MAX_SIZE
   \<and> length (value_arr (deserialized
          (deserialize sample_io (sample_func 0) \<lparr>value_arr = [Some 1]\<rparr> [2, 1, 0, 5])))
        \<le> unat AGGREGATE_FUNCTION_GROUP_ARRAY_INSERT_AT_MAX_SIZE
   \<and> length (value_arr \<lparr>value_arr = [None, Some (2::byte)]\<rparr>)
        \<le> unat AGGREGATE_FUNCTION_GROUP_ARRAY_INSERT_AT_MAX_SIZE
   \<and> length (value_arr (merge \<lparr>value_arr = [Some (1::byte)]\<rparr> \<lparr>value_arr = [None, Some 2]\<rparr>))
        \<le> unat AGGREGATE_FUNCTION_GROUP_ARRAY_INSERT_AT_MAX_SIZE
   \<and> reachable sample_io (sample_func 0)
        (state_after (add (sample_func 0) \<lparr>value_arr = []\<rparr> (Some 5) 2))
   \<and> length (value_arr (state_after (add (sample_func 0) \<lparr>value_arr = []\<rparr> (Some 5) 2)))
        \<le> unat AGGREGATE_FUNCTION_GROUP_ARRAY_INSERT_AT_MAX_SIZE"
proof -
  have h1: "length (value_arr \<lparr>value_arr = [Some (1::byte)]\<rparr>)
      \<le> unat AGGREGATE_FUNCTION_GROUP_ARRAY_INSERT_AT_MAX_SIZE"
    by (simp add: unat_MAX_SIZE)
  have h2: "length (value_arr \<lparr>value_arr = [None, Some (2::byte)]\<rparr>)
      \<le> unat AGGREGATE_FUNCTION_GROUP_ARRAY_INSERT_AT_MAX_SIZE"
    by (simp add: unat_MAX_SIZE)
  have h3: "reachable sample_io (sample_func 0)
      (state_after (add (sample_func 0) \<lparr>value_arr = []\<rparr> (Some 5) 2))"
    by (rule reachable_add) (rule reachable_create)
  note inv = length_bound_invariant[where s = "\<lparr>value_arr = [Some (1::byte)]\<rparr>"
        and this = "sample_func 0" and v = "Some 9" and position = 3 and io = sample_io
        and buf = "[2, 1, 0, 5]" and a = "\<lparr>value_arr = [Some (1::byte)]\<rparr>"
        and b = "\<lparr>value_arr = [None, Some 2]\<rparr>"
        and r = "state_after (add (sample_func 0) \<lparr>value_arr = []\<rparr> (Some 5) 2)"]
  note step = inv[THEN conjunct1, THEN mp, OF h1]
  note merged = inv[THEN conjunct2, THEN conjunct1, THEN mp, OF conjI[OF h1 h2]]
  note reached = inv[THEN conjunct2, THEN conjunct2, THEN conjunct1, THEN mp, OF h3]
  show ?thesis
    by (intro conjI h1 h2 h3 step[THEN conjunct1] step[THEN conjunct2] merged reached)
qed

subsection \<open>Round trip of the wire format\<close>

lemma serialize_elems_append:
  "serialize_elems this arr buf = buf @ serialize_elems this arr []"
proof (induction arr arbitrary: buf)
  case Nil
  show ?case by simp
next
  case (Cons elem rest)
  show ?case
    by (simp add: Cons.IH[of "buf @ [1]"] Cons.IH[of "[1]"]
        Cons.IH[of "buf @ 0 # serializeBinary (serialization this) elem"]
        Cons.IH[of "0 # serializeBinary (serialization this) elem"])
qed

lemma deserialize_loop_serialize_elems:
  assumes "\<forall>elem \<in> set es. \<not> isNull elem \<longrightarrow>
      (\<forall>rest. deserializeBinary (serialization this) (serializeBinary (serialization this) elem @ rest)
               = Some (elem, rest))"
  shows "deserialize_loop this (length pre) (length pre + length es)
           (pre @ replicate (length es) None) (serialize_elems this es [] @ rest)
         = Inr (pre @ es, rest)"
  using assms
proof (induction es arbitrary: pre)
  case Nil
  show ?case by (subst deserialize_loop.simps) simp
next
  case (Cons e es)
  have ih: "deserialize_loop this (Suc (length pre)) (Suc (length pre) + length es)
           ((pre @ [e]) @ replicate (length es) None) (serialize_elems this es [] @ rest)
         = Inr ((pre @ [e]) @ es, rest)"
    using Cons.IH[of "pre @ [e]"] Cons.prems by simp
  show ?case
  proof (cases "isNull e")
    case True
    then have e: "e = None" by (simp add: isNull_def)
    have buf: "serialize_elems this (e # es) [] @ rest = 1 # (serialize_elems this es [] @ rest)"
      using True serialize_elems_append[of this es "[1]"] by simp
    show ?thesis
      unfolding buf
      by (subst deserialize_loop.simps) (use ih e in simp)
  next
    case False
    then have dec: "\<And>rest. deserializeBinary (serialization this)
        (serializeBinary (serialization this) e @ rest) = Some (e, rest)"
      using Cons.prems by simp
    have buf: "serialize_elems this (e # es) [] @ rest
        = 0 # (serializeBinary (serialization this) e @ (serialize_elems this es [] @ rest))"
      using False serialize_elems_append[of this es "0 # serializeBinary (serialization this) e"]
      by simp
    show ?thesis
      unfolding buf
      by (subst deserialize_loop.simps) (use ih dec in simp)
  qed
qed

text \<open>
  C3. For a state within the limit, deserializing what \<open>serialize\<close> wrote into a fresh empty
  state gives the state back (same length, same Null slots, same values) and leaves the
  bytes that followed unread. The readers are parameters, so the theorem assumes what
  the wire format relies on: the integer reader reads back the written size, and the
  element reader reads back each non-null element, whatever bytes follow.
\<close>

theorem deserialize_serialize_roundtrip:
  assumes valid: "length (value_arr s) \<le> unat AGGREGATE_FUNCTION_GROUP_ARRAY_INSERT_AT_MAX_SIZE"
    and var: "\<forall>rest. readVarUInt io (writeVarUInt io (of_nat (length (value_arr s))) @ rest)
               = Some (of_nat (length (value_arr s)), rest)"
    and elems: "\<forall>elem \<in> set (value_arr s). \<not> isNull elem \<longrightarrow>
      (\<forall>rest. deserializeBinary (serialization this) (serializeBinary (serialization this) elem @ rest)
               = Some (elem, rest))"
  shows "deserialize io this \<lparr>value_arr = []\<rparr> (serialize io this s [] @ rest) = Inr (s, rest)"
proof -
  let ?n = "length (value_arr s)"
  let ?sz = "of_nat ?n :: UInt64"
  have n: "?n < 2 ^ LENGTH(64)" using valid by (simp add: unat_MAX_SIZE)
  have un: "unat ?sz = ?n" using n by (rule of_nat_inverse[OF refl])
  have le: "\<not> ?sz > AGGREGATE_FUNCTION_GROUP_ARRAY_INSERT_AT_MAX_SIZE"
    using valid un by (simp add: word_less_nat_alt)
  have bytes: "serialize io this s [] @ rest
      = writeVarUInt io ?sz @ (serialize_elems this (value_arr s) [] @ rest)"
    using serialize_elems_append[of this "value_arr s" "writeVarUInt io ?sz"]
    by (simp add: serialize_def Let_def)
  have rd: "readVarUInt io (serialize io this s [] @ rest)
      = Some (?sz, serialize_elems this (value_arr s) [] @ rest)"
    unfolding bytes using var by simp
  have loop: "deserialize_loop this 0 ?n (resize [] ?n) (serialize_elems this (value_arr s) [] @ rest)
      = Inr (value_arr s, rest)"
    using deserialize_loop_serialize_elems[OF elems, of "[]" rest] by (simp add: resize_def)
  show ?thesis
    using rd le loop un by (simp add: deserialize_def)
qed

text \<open>The theorem at the state \<open>[5, Null, 7]\<close> with the sample readers and writers.\<close>

theorem deserialize_serialize_roundtrip_witness:
  "deserialize sample_io (sample_func 0) \<lparr>value_arr = []\<rparr>
     (serialize sample_io (sample_func 0) \<lparr>value_arr = [Some 5, None, Some 7]\<rparr> [] @ [9, 9])
   = Inr (\<lparr>value_arr = [Some 5, None, Some 7]\<rparr>, [9, 9])"
proof -
  let ?s = "\<lparr>value_arr = [Some (5::byte), None, Some 7]\<rparr>"
  have valid: "length (value_arr ?s) \<le> unat AGGREGATE_FUNCTION_GROUP_ARRAY_INSERT_AT_MAX_SIZE"
    by (simp add: unat_MAX_SIZE)
  have var: "\<forall>rest. readVarUInt sample_io (writeVarUInt sample_io (of_nat (length (value_arr ?s))) @ rest)
               = Some (of_nat (length (value_arr ?s)), rest)"
    by (simp add: sample_io_def sample_writeVarUInt.simps sample_readVarUInt_loop.simps)
  have elems: "\<forall>elem \<in> set (value_arr ?s). \<not> isNull elem \<longrightarrow>
      (\<forall>rest. deserializeBinary (serialization (sample_func 0))
                 (serializeBinary (serialization (sample_func 0)) elem @ rest) = Some (elem, rest))"
    by (simp add: sample_func_def UInt8_serialization_def isNull_def)
  show ?thesis
    by (rule deserialize_serialize_roundtrip[OF valid var elems])
qed

subsection \<open>insertResultInto\<close>

lemma insert_elems_eq:
  "insert_elems this arr to_data
     = to_data @ map (\<lambda>elem. if \<not> isNull elem then elem else default_value this) arr"
  by (induction arr arbitrary: to_data) simp_all

lemma pad_loop_eq:
  "pad_loop this i result_array_size to_data
     = to_data @ replicate (result_array_size - i) (default_value this)"
proof (induction this i result_array_size to_data rule: pad_loop.induct)
  case (1 this i n to_data)
  show ?case
  proof (cases "i < n")
    case True
    then have "n - i = Suc (n - Suc i)" by arith
    with True "1.IH" show ?thesis
      by (subst pad_loop.simps) (simp add: replicate_app_Cons_same)
  next
    case False
    then show ?thesis by (subst pad_loop.simps) simp
  qed
qed

lemma getData_insertResultInto:
  "getData (insertResultInto this place to)
     = getData to
       @ map (\<lambda>elem. if \<not> isNull elem then elem else default_value this) (value_arr place)
       @ replicate (result_array_size_of this place - length (value_arr place)) (default_value this)"
  by (simp add: insertResultInto_def Let_def insert_elems_eq pad_loop_eq result_array_size_of_def)

lemma getOffsets_insertResultInto:
  "getOffsets (insertResultInto this place to)
     = getOffsets to @ [back_offset (getOffsets to) + of_nat (result_array_size_of this place)]"
  by (simp add: insertResultInto_def Let_def result_array_size_of_def)

lemma length_getData_insertResultInto:
  "length (getData (insertResultInto this place to))
     = length (getData to) + max (length (value_arr place)) (result_array_size_of this place)"
  by (simp add: getData_insertResultInto)

lemma nth_getData_insertResultInto:
  assumes "i < max (length (value_arr place)) (result_array_size_of this place)"
  shows "getData (insertResultInto this place to) ! (length (getData to) + i)
     = (if \<not> isNull (slot_at (value_arr place) i) then slot_at (value_arr place) i
        else default_value this)"
proof (cases "i < length (value_arr place)")
  case True
  then show ?thesis
    by (simp add: getData_insertResultInto nth_append slot_at_def)
next
  case False
  with assms show ?thesis
    by (simp add: getData_insertResultInto nth_append slot_at_def isNull_def)
qed

lemma insertResultInto_consistent_when_fits:
  assumes "length (value_arr place) \<le> result_array_size_of this place"
  shows "length (getData (insertResultInto this place to))
     = length (getData to) + result_array_size_of this place"
  using assms by (simp add: length_getData_insertResultInto)

subsection \<open>Evaluation on concrete inputs\<close>

text \<open>The defining equations that the closed theorems below unfold.\<close>

lemmas eval_defs = add_def state_after_def insertResultInto_def Let_def resize_def isNull_def
  sample_func_def back_offset_def pad_loop.simps deserialize_def deserialize_loop.simps
  sample_io_def sample_readVarUInt_loop.simps UInt8_serialization_def
  AGGREGATE_FUNCTION_GROUP_ARRAY_INSERT_AT_MAX_SIZE_def

lemma replicate_numeral_unfold: "replicate (numeral k) x = x # replicate (pred_numeral k) x"
  by (simp add: numeral_eq_Suc)

lemma list_update_numeral_unfold: "(x # xs)[numeral k := v] = x # xs[pred_numeral k := v]"
  by (simp add: numeral_eq_Suc)

lemmas eval_list = replicate_numeral_unfold list_update_numeral_unfold

subsection \<open>The length of the result\<close>

text \<open>
  C1. The claim: the result of \<open>insertResultInto\<close> has as many elements as the configured
  length when one is configured, as many as the array otherwise, each the value of the
  slot or the default; with a length \<open>L\<close> configured that is exactly \<open>L\<close> elements also for a
  state whose array is longer than \<open>L\<close>. The function does not cut a longer array: for every
  state it appends \<open>max (length arr) result_array_size\<close> elements to the column
  (\<open>length_getData_insertResultInto\<close>) and advances the offsets by \<open>result_array_size\<close>, and
  the two agree only when the array is not longer (\<open>insertResultInto_consistent_when_fits\<close>).
  Below, with the length 1 configured, the state \<open>[1, 2]\<close> that \<open>deserialize\<close> yields from five
  bytes: two elements are appended and the row is recorded with one, so that the row of the
  next group, \<open>[9]\<close>, is read from the column as \<open>[2]\<close>.
\<close>

theorem insertResultInto_emits_beyond_fixed_length:
  "deserialize sample_io (sample_func 1) \<lparr>value_arr = []\<rparr> [2, 0, 1, 0, 2]
     = Inr (\<lparr>value_arr = [Some 1, Some 2]\<rparr>, [])
   \<and> insertResultInto (sample_func 1) \<lparr>value_arr = [Some 1, Some 2]\<rparr> \<lparr>getData = [], getOffsets = []\<rparr>
     = \<lparr>getData = [Some 1, Some 2], getOffsets = [1]\<rparr>
   \<and> insertResultInto (sample_func 1) \<lparr>value_arr = [Some 9]\<rparr>
       (insertResultInto (sample_func 1) \<lparr>value_arr = [Some 1, Some 2]\<rparr> \<lparr>getData = [], getOffsets = []\<rparr>)
     = \<lparr>getData = [Some 1, Some 2, Some 9], getOffsets = [1, 2]\<rparr>"
  by (simp add: eval_defs eval_list)

subsection \<open>First write wins, in the result\<close>

text \<open>
  C2, amended. Let the position be accepted by \<open>add\<close> (below the limit, and below the
  configured length if there is one), let the state hold no value at it, and let \<open>A\<close> be
  non-null. Then adding \<open>A\<close> and afterwards any \<open>B\<close> at that position both return normally, and
  the result appended to the column by \<open>insertResultInto\<close> has \<open>A\<close> at the index of the position.
\<close>

theorem first_write_wins_when_accepted:
  assumes "add_accepted this position"
    and "\<not> isNull A"
    and "isNull (slot_at (value_arr s) (unat position))"
  shows "add this s A position = Inr (state_after (add this s A position))
     \<and> add this (state_after (add this s A position)) B position
         = Inr (state_after (add this (state_after (add this s A position)) B position))
     \<and> getData (insertResultInto this
           (state_after (add this (state_after (add this s A position)) B position)) to)
         ! (length (getData to) + unat position) = A"
proof -
  let ?s1 = "state_after (add this s A position)"
  let ?s2 = "state_after (add this ?s1 B position)"
  have s1: "slot_at (value_arr ?s1) (unat position) = A"
    using assms by (simp add: slot_at_add)
  have s2: "slot_at (value_arr ?s2) (unat position) = A"
    using assms s1 by (simp add: slot_at_add)
  have "length (value_arr ?s2) = max (length (value_arr ?s1)) (Suc (unat position))"
    using assms(1) by (rule length_add)
  then have "unat position < max (length (value_arr ?s2)) (result_array_size_of this ?s2)"
    by simp
  then have "getData (insertResultInto this ?s2 to) ! (length (getData to) + unat position) = A"
    using s2 assms(2) by (simp add: nth_getData_insertResultInto)
  then show ?thesis
    using add_accepted_Inr[OF assms(1)] by simp
qed

text \<open>The theorem at the state \<open>[1]\<close>, position 2, \<open>A = 5\<close> and \<open>B = 6\<close>.\<close>

theorem first_write_wins_when_accepted_witness:
  "getData (insertResultInto (sample_func 0)
       (state_after (add (sample_func 0) (state_after (add (sample_func 0) \<lparr>value_arr = [Some 1]\<rparr> (Some 5) 2))
          (Some 6) 2))
       \<lparr>getData = [Some 4], getOffsets = [1]\<rparr>)
     ! (length (getData \<lparr>getData = [Some (4::byte)], getOffsets = [1]\<rparr>) + unat (2::UInt64)) = Some 5"
proof -
  have h1: "add_accepted (sample_func 0) 2"
    by (simp add: add_accepted_def add_dropped_def sample_func_def
        AGGREGATE_FUNCTION_GROUP_ARRAY_INSERT_AT_MAX_SIZE_def)
  have h2: "\<not> isNull (Some (5::byte))" by (simp add: isNull_def)
  have h3: "isNull (slot_at (value_arr \<lparr>value_arr = [Some (1::byte)]\<rparr>) (unat (2::UInt64)))"
    by (simp add: isNull_def slot_at_def)
  show ?thesis
    by (rule first_write_wins_when_accepted[OF h1 h2 h3, THEN conjunct2, THEN conjunct2])
qed

text \<open>
  C2 as stated, for every position and every pair of values, fails in four ways: when
  \<open>A\<close> is Null the result holds \<open>B\<close> (here 7); when the state already holds a value (here 1) the
  result holds that value, not \<open>A = 2\<close>; with the length 3 configured, position 5 is dropped and
  the result has three elements, so no index 5; and at position \<open>0xFFFFFF\<close> the call throws.
\<close>

theorem first_write_wins_counterexample:
  "getData (insertResultInto (sample_func 0)
       (state_after (add (sample_func 0) (state_after (add (sample_func 0) \<lparr>value_arr = []\<rparr> None 0))
          (Some 7) 0))
       \<lparr>getData = [], getOffsets = []\<rparr>) ! 0 = Some 7
   \<and> getData (insertResultInto (sample_func 0)
       (state_after (add (sample_func 0) (state_after (add (sample_func 0) \<lparr>value_arr = [Some 1]\<rparr> (Some 2) 0))
          (Some 3) 0))
       \<lparr>getData = [], getOffsets = []\<rparr>) ! 0 = Some 1
   \<and> getData (insertResultInto (sample_func 3)
       (state_after (add (sample_func 3) (state_after (add (sample_func 3) \<lparr>value_arr = []\<rparr> (Some 2) 5))
          (Some 3) 5))
       \<lparr>getData = [], getOffsets = []\<rparr>) = [Some 0, Some 0, Some 0]
   \<and> add (sample_func 0) \<lparr>value_arr = []\<rparr> (Some 2) 0xFFFFFF
       = Inl (TOO_LARGE_ARRAY_SIZE, \<lparr>value_arr = []\<rparr>)"
  by (simp add: eval_defs eval_list)

subsection \<open>Adding Null\<close>

text \<open>
  A slot that is empty stays empty under every operation that brings no non-null value to
  its position, and no operation shortens the array.
\<close>

lemma null_slot_kept_by_operation:
  assumes "isNull (slot_at (value_arr s) p)" and "\<not> writes_nonnull_at p op"
  shows "isNull (slot_at (value_arr (apply_operation this s op)) p)"
proof (cases op)
  case (Add v position)
  show ?thesis
  proof (cases "add_accepted this position")
    case True
    with assms Add show ?thesis by (auto simp: slot_at_add)
  next
    case False
    with assms Add show ?thesis by (simp add: add_rejected_state)
  qed
next
  case (Merge rhs)
  with assms show ?thesis by (simp add: slot_at_merge)
qed

lemma length_apply_operation:
  "length (value_arr s) \<le> length (value_arr (apply_operation this s op))"
proof (cases op)
  case (Add v position)
  show ?thesis
  proof (cases "add_accepted this position")
    case True
    with Add show ?thesis by (simp add: length_add)
  next
    case False
    with Add show ?thesis by (simp add: add_rejected_state)
  qed
next
  case (Merge rhs)
  then show ?thesis by (simp add: length_merge)
qed

lemma null_slot_kept_by_operations:
  assumes "isNull (slot_at (value_arr s) p)" and "\<not> list_ex (writes_nonnull_at p) ops"
  shows "isNull (slot_at (value_arr (apply_operations this s ops)) p)"
  using assms
proof (induction ops arbitrary: s)
  case Nil
  then show ?case by simp
next
  case (Cons op ops)
  from Cons.prems have "isNull (slot_at (value_arr (apply_operation this s op)) p)"
    by (simp add: null_slot_kept_by_operation)
  moreover from Cons.prems have "\<not> list_ex (writes_nonnull_at p) ops" by simp
  ultimately show ?case using Cons.IH by simp
qed

lemma length_apply_operations:
  "length (value_arr s) \<le> length (value_arr (apply_operations this s ops))"
proof (induction ops arbitrary: s)
  case Nil
  show ?case by simp
next
  case (Cons op ops)
  have "length (value_arr s) \<le> length (value_arr (apply_operation this s op))"
    by (rule length_apply_operation)
  also have "\<dots> \<le> length (value_arr (apply_operations this (apply_operation this s op) ops))"
    by (rule Cons.IH)
  finally show ?case by simp
qed

text \<open>
  C10, amended. Adding Null at a position leaves the slot at that position as it was, for
  every state and position. If the position is accepted by \<open>add\<close> and the slot was empty, the
  call returns normally, and after any later calls of \<open>add\<close> and \<open>merge\<close> that bring no
  non-null value to the position the slot is still empty: an \<open>add\<close> of a value at the position
  then stores that value, and the result of \<open>insertResultInto\<close> has the default value at
  the index of the position.
\<close>

theorem null_insert_leaves_slot:
  "slot_at (value_arr (state_after (add this s None position))) (unat position)
     = slot_at (value_arr s) (unat position)
   \<and> (add_accepted this position \<and> isNull (slot_at (value_arr s) (unat position))
        \<and> \<not> list_ex (writes_nonnull_at (unat position)) ops \<longrightarrow>
        add this s None position = Inr (state_after (add this s None position))
      \<and> isNull (slot_at (value_arr
            (apply_operations this (state_after (add this s None position)) ops)) (unat position))
      \<and> slot_at (value_arr (state_after (add this
            (apply_operations this (state_after (add this s None position)) ops) v position)))
            (unat position) = v
      \<and> getData (insertResultInto this
            (apply_operations this (state_after (add this s None position)) ops) to)
            ! (length (getData to) + unat position) = default_value this)"
proof -
  let ?s1 = "state_after (add this s None position)"
  let ?s2 = "apply_operations this ?s1 ops"
  have same: "slot_at (value_arr ?s1) (unat position) = slot_at (value_arr s) (unat position)"
  proof (cases "add_accepted this position")
    case True
    then show ?thesis by (simp add: slot_at_add isNull_def)
  next
    case False
    then show ?thesis by (simp add: add_rejected_state)
  qed
  have rest: "add this s None position = Inr ?s1
      \<and> isNull (slot_at (value_arr ?s2) (unat position))
      \<and> slot_at (value_arr (state_after (add this ?s2 v position))) (unat position) = v
      \<and> getData (insertResultInto this ?s2 to) ! (length (getData to) + unat position)
          = default_value this"
    if acc: "add_accepted this position"
      and empty: "isNull (slot_at (value_arr s) (unat position))"
      and quiet: "\<not> list_ex (writes_nonnull_at (unat position)) ops"
  proof -
    have null1: "isNull (slot_at (value_arr ?s1) (unat position))"
      using same empty by simp
    have null2: "isNull (slot_at (value_arr ?s2) (unat position))"
      using null1 quiet by (rule null_slot_kept_by_operations)
    have stored: "slot_at (value_arr (state_after (add this ?s2 v position))) (unat position) = v"
      using acc null2 by (simp add: slot_at_add)
    have "length (value_arr ?s1) = max (length (value_arr s)) (Suc (unat position))"
      using acc by (rule length_add)
    moreover have "length (value_arr ?s1) \<le> length (value_arr ?s2)"
      by (rule length_apply_operations)
    ultimately have "unat position < length (value_arr ?s2)"
      by arith
    then have "unat position < max (length (value_arr ?s2)) (result_array_size_of this ?s2)"
      by (simp add: less_max_iff_disj)
    then have "getData (insertResultInto this ?s2 to) ! (length (getData to) + unat position)
        = default_value this"
      using null2 by (simp add: nth_getData_insertResultInto)
    with null2 stored add_accepted_Inr[OF acc] show ?thesis by simp
  qed
  from same rest show ?thesis by blast
qed

text \<open>
  The theorem at the state \<open>[1]\<close> and position 2, followed by an \<open>add\<close> of 5 at position 3,
  another \<open>add\<close> of Null at position 2 and a \<open>merge\<close> with the state \<open>[8, 9]\<close>.
\<close>

theorem null_insert_leaves_slot_witness:
  "add_accepted (sample_func 0) 2
   \<and> isNull (slot_at (value_arr \<lparr>value_arr = [Some (1::byte)]\<rparr>) (unat (2::UInt64)))
   \<and> \<not> list_ex (writes_nonnull_at (unat (2::UInt64)))
         [Add (Some (5::byte)) 3, Add None 2, Merge \<lparr>value_arr = [Some 8, Some 9]\<rparr>]
   \<and> add (sample_func 0) \<lparr>value_arr = [Some 1]\<rparr> None 2
       = Inr (state_after (add (sample_func 0) \<lparr>value_arr = [Some 1]\<rparr> None 2))
   \<and> isNull (slot_at (value_arr
         (apply_operations (sample_func 0)
            (state_after (add (sample_func 0) \<lparr>value_arr = [Some 1]\<rparr> None 2))
            [Add (Some 5) 3, Add None 2, Merge \<lparr>value_arr = [Some 8, Some 9]\<rparr>]))
         (unat (2::UInt64)))
   \<and> slot_at (value_arr (state_after (add (sample_func 0)
         (apply_operations (sample_func 0)
            (state_after (add (sample_func 0) \<lparr>value_arr = [Some 1]\<rparr> None 2))
            [Add (Some 5) 3, Add None 2, Merge \<lparr>value_arr = [Some 8, Some 9]\<rparr>])
         (Some 6) 2)))
         (unat (2::UInt64)) = Some 6
   \<and> getData (insertResultInto (sample_func 0)
         (apply_operations (sample_func 0)
            (state_after (add (sample_func 0) \<lparr>value_arr = [Some 1]\<rparr> None 2))
            [Add (Some 5) 3, Add None 2, Merge \<lparr>value_arr = [Some 8, Some 9]\<rparr>])
         \<lparr>getData = [Some 4], getOffsets = [1]\<rparr>)
       ! (length (getData \<lparr>getData = [Some (4::byte)], getOffsets = [1]\<rparr>) + unat (2::UInt64))
       = default_value (sample_func 0)"
proof -
  have h1: "add_accepted (sample_func 0) 2"
    by (simp add: add_accepted_def add_dropped_def sample_func_def
        AGGREGATE_FUNCTION_GROUP_ARRAY_INSERT_AT_MAX_SIZE_def)
  have h2: "isNull (slot_at (value_arr \<lparr>value_arr = [Some (1::byte)]\<rparr>) (unat (2::UInt64)))"
    by (simp add: isNull_def slot_at_def)
  have h3: "\<not> list_ex (writes_nonnull_at (unat (2::UInt64)))
         [Add (Some (5::byte)) 3, Add None 2, Merge \<lparr>value_arr = [Some 8, Some 9]\<rparr>]"
    by (simp add: isNull_def slot_at_def)
  note inst = null_insert_leaves_slot[where this = "sample_func 0" and position = 2
      and s = "\<lparr>value_arr = [Some (1::byte)]\<rparr>" and v = "Some 6"
      and ops = "[Add (Some 5) 3, Add None 2, Merge \<lparr>value_arr = [Some 8, Some 9]\<rparr>]"
      and to = "\<lparr>getData = [Some 4], getOffsets = [1]\<rparr>"]
  note concl = inst[THEN conjunct2, THEN mp, OF conjI[OF h1 conjI[OF h2 h3]]]
  show ?thesis
    by (intro conjI h1 h2 h3 concl[THEN conjunct1] concl[THEN conjunct2, THEN conjunct1]
        concl[THEN conjunct2, THEN conjunct2, THEN conjunct1]
        concl[THEN conjunct2, THEN conjunct2, THEN conjunct2])
qed

text \<open>The result column of that run: the default 0 stands at index 2.\<close>

lemma null_insert_then_operations_example:
  "insertResultInto (sample_func 0)
         (apply_operations (sample_func 0)
            (state_after (add (sample_func 0) \<lparr>value_arr = [Some 1]\<rparr> None 2))
            [Add (Some 5) 3, Add None 2, Merge \<lparr>value_arr = [Some 8, Some 9]\<rparr>])
         \<lparr>getData = [], getOffsets = []\<rparr>
   = \<lparr>getData = [Some 1, Some 9, Some 0, Some 5], getOffsets = [4]\<rparr>"
  by code_simp

text \<open>
  C10 as stated, for every state and position, fails: with the length 3 configured, a value
  added at position 5 after a Null is not stored and the result has no index 5; at position
  \<open>0xFFFFFF\<close> the call throws; and in the state \<open>[1]\<close> the slot at position 0 is not empty
  after Null is added there, and a following \<open>add\<close> of 7 does not store 7.
\<close>

theorem null_insert_counterexample:
  "state_after (add (sample_func 3) (state_after (add (sample_func 3) \<lparr>value_arr = []\<rparr> None 5)) (Some 7) 5)
     = \<lparr>value_arr = []\<rparr>
   \<and> getData (insertResultInto (sample_func 3)
        (state_after (add (sample_func 3) \<lparr>value_arr = []\<rparr> None 5))
        \<lparr>getData = [], getOffsets = []\<rparr>) = [Some 0, Some 0, Some 0]
   \<and> add (sample_func 0) \<lparr>value_arr = []\<rparr> None 0xFFFFFF
       = Inl (TOO_LARGE_ARRAY_SIZE, \<lparr>value_arr = []\<rparr>)
   \<and> slot_at (value_arr (state_after (add (sample_func 0) \<lparr>value_arr = [Some 1]\<rparr> None 0))) 0 = Some 1
   \<and> slot_at (value_arr (state_after (add (sample_func 0)
        (state_after (add (sample_func 0) \<lparr>value_arr = [Some 1]\<rparr> None 0)) (Some 7) 0))) 0 = Some 1"
  by (simp add: eval_defs eval_list slot_at_def)

end
